theory Spec2Isabelle
  imports Main "HOL-Library.AList" "HOL-Library.Sublist" "HOL-Library.While_Combinator"
begin

section \<open>Python text primitives\<close>

text \<open>
  Text is a list of characters. The alphabet of the model is the 8-bit type \<^typ>\<open>char\<close>,
  read as the code points 0..255. The functions below are the Python string methods the
  migrator calls, on that alphabet.
\<close>

abbreviation LF :: char where "LF \<equiv> CHR 0x0A"
abbreviation CR :: char where "CR \<equiv> CHR 0x0D"

text \<open>\<open>str.isspace\<close> of one character, which is also the class \<open>\s\<close> of \<open>re\<close> on \<open>str\<close>
  patterns: TAB, LF, VT, FF, CR, FS, GS, RS, US, SPACE, NEL and NBSP.\<close>

definition isspace :: "char \<Rightarrow> bool" where
  "isspace c = (c \<in> set [CHR 0x09, CHR 0x0A, CHR 0x0B, CHR 0x0C, CHR 0x0D,
                          CHR 0x1C, CHR 0x1D, CHR 0x1E, CHR 0x1F, CHR 0x20,
                          CHR 0x85, CHR 0xA0])"

text \<open>\<open>s.strip()\<close>\<close>

definition strip :: "string \<Rightarrow> string" where
  "strip s = rev (dropWhile isspace (rev (dropWhile isspace s)))"

text \<open>\<open>s.startswith(p)\<close> and \<open>s.endswith(p)\<close>\<close>

definition startswith :: "string \<Rightarrow> string \<Rightarrow> bool" where
  "startswith s p = (take (length p) s = p)"

definition endswith :: "string \<Rightarrow> string \<Rightarrow> bool" where
  "endswith s p = (length p \<le> length s \<and> drop (length s - length p) s = p)"

text \<open>\<open>s.lower()\<close>: the cased code points below 256 are A-Z and the Latin-1 capitals
  0xC0..0xDE without the multiplication sign 0xD7; each lower-case partner is 32 above.\<close>

definition lower_char :: "char \<Rightarrow> char" where
  "lower_char c =
     (let n = (of_char c :: nat)
      in if (65 \<le> n \<and> n \<le> 90) \<or> (192 \<le> n \<and> n \<le> 222 \<and> n \<noteq> 215)
         then char_of (n + 32) else c)"

definition lower :: "string \<Rightarrow> string" where
  "lower s = map lower_char s"

text \<open>\<open>sep.join(xs)\<close>\<close>

fun join :: "string \<Rightarrow> string list \<Rightarrow> string" where
  "join sep [] = []"
| "join sep [x] = x"
| "join sep (x # y # ys) = x @ sep @ join sep (y # ys)"

text \<open>\<open>str(n)\<close> for an integer, as the f-strings format it.\<close>

definition digit :: "nat \<Rightarrow> char" where
  "digit d = char_of (48 + d)"

function str_nat :: "nat \<Rightarrow> string" where
  "str_nat n = (if n < 10 then [digit n] else str_nat (n div 10) @ [digit (n mod 10)])"
  by pat_completeness auto
termination
  by (relation "measure id") auto

declare str_nat.simps [simp del]

definition str_int :: "int \<Rightarrow> string" where
  "str_int k = (if k < 0 then CHR ''-'' # str_nat (nat (- k)) else str_nat (nat k))"

text \<open>The identifier classes of the pattern \<open>^([a-zA-Z_][a-zA-Z0-9_]*)\s*\{\<close>.\<close>

definition ident_start :: "char \<Rightarrow> bool" where
  "ident_start c =
     (let n = (of_char c :: nat)
      in (97 \<le> n \<and> n \<le> 122) \<or> (65 \<le> n \<and> n \<le> 90) \<or> c = CHR ''_'')"

definition ident_char :: "char \<Rightarrow> bool" where
  "ident_char c =
     (let n = (of_char c :: nat) in ident_start c \<or> (48 \<le> n \<and> n \<le> 57))"

text \<open>
  \<open>re.match(r'^([a-zA-Z_][a-zA-Z0-9_]*)\s*\{', line)\<close>, returning group 1. The three
  character classes (identifier, whitespace, the brace) are disjoint, so the greedy match
  never backtracks into a shorter name.
\<close>

definition section_match :: "string \<Rightarrow> string option" where
  "section_match line =
     (case line of
        [] \<Rightarrow> None
      | c # cs \<Rightarrow>
          if ident_start c then
            (case dropWhile isspace (dropWhile ident_char cs) of
               [] \<Rightarrow> None
             | d # _ \<Rightarrow> if d = CHR ''{'' then Some (c # takeWhile ident_char cs) else None)
          else None)"

section \<open>Files\<close>

text \<open>
  A file system maps a path to the text of the file there; a path with no file maps to
  \<open>None\<close>. Files are opened in text mode with the default \<open>newline=None\<close>: on reading,
  \<open>\r\n\<close> and a lone \<open>\r\<close> become \<open>\n\<close>; on writing (POSIX) the text is stored as it is.
  Files are taken to decode without error into text over the alphabet above; the errors
  of decoding and of input and output, other than a missing file, are not modelled.
\<close>

type_synonym filesystem = "string \<rightharpoonup> string"

text \<open>The flag says that the previous character was a carriage return.\<close>

primrec universal_newlines :: "bool \<Rightarrow> string \<Rightarrow> string" where
  "universal_newlines after_cr [] = []"
| "universal_newlines after_cr (c # cs) =
     (if c = CR then LF # universal_newlines True cs
      else if c = LF \<and> after_cr then universal_newlines False cs
      else c # universal_newlines False cs)"

text \<open>\<open>file.readlines()\<close>: every line keeps its \<open>\n\<close>; a last line may lack one.\<close>

fun readlines :: "string \<Rightarrow> string list" where
  "readlines [] = []"
| "readlines (c # cs) =
     (if c = LF then [c] # readlines cs
      else (case readlines cs of [] \<Rightarrow> [[c]] | l # ls \<Rightarrow> (c # l) # ls))"

text \<open>\<open>file.writelines(lines)\<close> into a file opened with mode \<open>'w'\<close>.\<close>

definition writelines :: "string list \<Rightarrow> string" where
  "writelines ls = concat ls"

datatype error =
    FileNotFoundError string
  | KeyError string
  | Exception string

text \<open>\<open>str(e)\<close>; for a \<open>KeyError\<close> it is the \<open>repr\<close> of the key, here of a key without
  quotes, backslashes or unprintable characters.\<close>

fun str_error :: "error \<Rightarrow> string" where
  "str_error (FileNotFoundError m) = m"
| "str_error (KeyError k) = [CHR 0x27] @ k @ [CHR 0x27]"
| "str_error (Exception m) = m"

definition read_gradle_file :: "filesystem \<Rightarrow> string \<Rightarrow> error + string list" where
  "read_gradle_file fs file_path =
     (case fs file_path of
        None \<Rightarrow> Inl (FileNotFoundError (''File not found: '' @ file_path))
      | Some text \<Rightarrow> Inr (readlines (universal_newlines False text)))"

section \<open>The section model\<close>

datatype SectionType =
    PLUGINS | DEPENDENCIES | REPOSITORIES | CONFIGURATIONS | TASKS
  | ANDROID | JAVA | KOTLIN | CUSTOM

record GradleSection =
  name :: string
  content :: "string list"
  start_line :: nat
  end_line :: nat
  section_type :: SectionType
  indentation :: string

record MigrationChange =
  section_name :: string
  change_type :: string
  description :: string
  details :: "string list"

text \<open>
  A Python \<open>dict\<close> keeps its keys in the order of their first insertion, and assigning to
  a key that is present replaces the value where it stands: an association list under
  \<^const>\<open>AList.update\<close>, read with \<^const>\<open>map_of\<close>.
\<close>

type_synonym sections = "(string \<times> GradleSection) list"

definition determine_section_type :: "string \<Rightarrow> SectionType" where
  "determine_section_type sname =
     (let section_name_lower = lower sname
      in if section_name_lower \<in> set [''plugins'', ''plugin''] then PLUGINS
         else if section_name_lower \<in> set [''dependencies'', ''dependency''] then DEPENDENCIES
         else if section_name_lower \<in> set [''repositories'', ''repository''] then REPOSITORIES
         else if section_name_lower \<in> set [''configurations'', ''configuration'']
           then CONFIGURATIONS
         else if section_name_lower \<in> set [''tasks'', ''task''] then TASKS
         else if section_name_lower = ''android'' then ANDROID
         else if section_name_lower = ''java'' then JAVA
         else if section_name_lower = ''kotlin'' then KOTLIN
         else CUSTOM)"

section \<open>The section scanner\<close>

text \<open>\<open>line.count('{') - line.count('}')\<close>\<close>

definition brace_delta :: "string \<Rightarrow> int" where
  "brace_delta line = int (count_list line CHR ''{'') - int (count_list line CHR ''}'')"

text \<open>
  The inner loop of \<open>identify_sections\<close>:
  \<^verbatim>\<open>
  while i < len(lines) and brace_count > 0:
      content.append(lines[i])
      brace_count += lines[i].count('{') - lines[i].count('}')
      i += 1
  \<close>
  It returns the three variables as the loop leaves them.
\<close>

function find_section_end ::
  "string list \<Rightarrow> nat \<Rightarrow> int \<Rightarrow> string list \<Rightarrow> string list \<times> nat \<times> int" where
  "find_section_end lines i brace_count body =
     (if i < length lines \<and> brace_count > 0
      then find_section_end lines (i + 1) (brace_count + brace_delta (lines ! i))
             (body @ [lines ! i])
      else (body, i, brace_count))"
  by pat_completeness auto
termination
  by (relation "measure (\<lambda>(lines, i, brace_count, body). length lines - i)") auto

declare find_section_end.simps [simp del]

lemma find_section_end_index:
  "find_section_end lines i bc c = (c', i', bc') \<Longrightarrow> i \<le> i'"
proof (induction lines i bc c rule: find_section_end.induct)
  case (1 lines i brace_count body)
  show ?case
  proof (cases "i < length lines \<and> brace_count > 0")
    case True
    with "1.prems" have
      "find_section_end lines (i + 1) (brace_count + brace_delta (lines ! i))
         (body @ [lines ! i]) = (c', i', bc')"
      by (simp add: find_section_end.simps [of lines i])
    from "1.IH" [OF True this] show ?thesis by simp
  next
    case False
    with "1.prems" show ?thesis by (simp add: find_section_end.simps [of lines i])
  qed
qed

text \<open>
  One pass through the body of the outer loop of \<open>identify_sections\<close>, at the index \<open>i\<close>
  with the dictionary built so far: it returns the next index and the dictionary. A line
  is skipped when, stripped, it is empty or starts a comment, and when it does not open a
  section.
\<close>

definition identify_sections_step :: "string list \<Rightarrow> nat \<times> sections \<Rightarrow> nat \<times> sections" where
  "identify_sections_step lines st =
     (case st of (i, sections) \<Rightarrow>
        (let line = strip (lines ! i)
         in if line = [] \<or> startswith line ''//'' \<or> startswith line ''/*''
            then (i + 1, sections)
            else
              (case section_match line of
                 Some sname \<Rightarrow>
                   (case find_section_end lines (i + 1) 1 [lines ! i] of
                      (body, i', brace_count) \<Rightarrow>
                        (i',
                         AList.update sname
                           \<lparr>name = sname, content = body, start_line = i,
                            end_line = i' - 1,
                            section_type = determine_section_type sname,
                            indentation = ''''\<rparr>
                           sections))
               | None \<Rightarrow> (i + 1, sections))))"

lemma identify_sections_step_index:
  "identify_sections_step lines (i, sections) = (i', sections') \<Longrightarrow> i < i'"
  unfolding identify_sections_step_def
  by (auto simp: Let_def split: if_splits option.splits prod.splits
        dest!: find_section_end_index)

text \<open>The outer loop, \<open>while i < len(lines)\<close>.\<close>

function identify_sections_from :: "string list \<Rightarrow> nat \<Rightarrow> sections \<Rightarrow> sections" where
  "identify_sections_from lines i sections =
     (if i < length lines
      then (case identify_sections_step lines (i, sections) of
              (i', sections') \<Rightarrow> identify_sections_from lines i' sections')
      else sections)"
  by pat_completeness auto
termination
  by (relation "measure (\<lambda>(lines, i, sections). length lines - i)")
     (auto split: prod.splits dest: identify_sections_step_index)

declare identify_sections_from.simps [simp del]

definition identify_sections :: "string list \<Rightarrow> sections" where
  "identify_sections lines = identify_sections_from lines 0 []"

section \<open>The migrator\<close>

text \<open>
  The fields of a \<open>BuildGradleMigrator\<close>. A state of a run is the file system together
  with the object; a method returns the exception it raised, if any, and the state it left.
  What the methods print is not modelled.
\<close>

record migrator =
  build_source_gradle_path :: string
  build_target_gradle_path :: string
  source_sections :: sections
  target_sections :: sections
  migration_changes :: "MigrationChange list"
  validation_errors :: "string list"

type_synonym state = "filesystem \<times> migrator"

definition init :: "string \<Rightarrow> string \<Rightarrow> migrator" where
  "init src tgt =
     \<lparr>build_source_gradle_path = src, build_target_gradle_path = tgt,
      source_sections = [], target_sections = [],
      migration_changes = [], validation_errors = []\<rparr>"

text \<open>
  \<open>parse_gradle_files\<close> raises a \<open>FileNotFoundError\<close> again with a longer message. Its
  second handler, which wraps any other exception in \<open>Exception\<close>, has nothing to catch
  here: reading and scanning raise nothing else.
\<close>

definition parse_gradle_files :: "state \<Rightarrow> error option \<times> state" where
  "parse_gradle_files st =
     (case st of (fs, self) \<Rightarrow>
        (case read_gradle_file fs (build_source_gradle_path self) of
           Inl e \<Rightarrow>
             (Some (FileNotFoundError (''Error reading Gradle file: '' @ str_error e)), st)
         | Inr source_lines \<Rightarrow>
             (let self1 = self\<lparr>source_sections := identify_sections source_lines\<rparr>
              in case read_gradle_file fs (build_target_gradle_path self1) of
                   Inl e \<Rightarrow>
                     (Some (FileNotFoundError (''Error reading Gradle file: '' @ str_error e)),
                      (fs, self1))
                 | Inr target_lines \<Rightarrow>
                     (None,
                      (fs, self1\<lparr>target_sections := identify_sections target_lines\<rparr>)))))"

text \<open>
  The filter both merge steps define locally as \<open>extract_content_lines\<close>; \<open>content_line\<close>
  is its condition on a stripped line.
\<close>

definition content_line :: "string \<Rightarrow> bool" where
  "content_line stripped =
     (stripped \<noteq> [] \<and>
      \<not> startswith stripped ''//'' \<and>
      \<not> startswith stripped ''/*'' \<and>
      \<not> startswith stripped ''{'' \<and>
      \<not> startswith stripped ''}'' \<and>
      \<not> endswith stripped ''{'' \<and>
      \<not> endswith stripped ''}'')"

definition extract_content_lines :: "string list \<Rightarrow> string list" where
  "extract_content_lines section_content = filter content_line (map strip section_content)"

text \<open>
  \<^verbatim>\<open>
  for i in range(len(target_lines) - 1, -1, -1):
      if target_lines[i].strip() == '}':
          insert_position = i
          break
  \<close>
  with \<open>n\<close> the number of indices still to visit and \<open>d\<close> the value \<open>insert_position\<close> has
  before the loop.
\<close>

fun find_last_close :: "string list \<Rightarrow> nat \<Rightarrow> nat \<Rightarrow> nat" where
  "find_last_close target_lines 0 d = d"
| "find_last_close target_lines (Suc i) d =
     (if strip (target_lines ! i) = ''}'' then i else find_last_close target_lines i d)"

text \<open>\<open>xs[p:p] = ys\<close>, and \<open>xs.insert(p, y)\<close> for one element: a position beyond the end
  appends.\<close>

definition insert_at :: "nat \<Rightarrow> 'a list \<Rightarrow> 'a list \<Rightarrow> 'a list" where
  "insert_at p ys xs = take p xs @ ys @ drop p xs"

definition add_change :: "string \<Rightarrow> GradleSection \<Rightarrow> MigrationChange" where
  "add_change sname source_section =
     \<lparr>section_name = sname,
      change_type = ''ADD'',
      description = ''Added new section '' @ [CHR 0x27] @ sname @ [CHR 0x27]
                    @ '' from source project'',
      details = (''Added complete section with ''
                 @ str_nat (length (content source_section)) @ '' lines'')
                # extract_content_lines (content source_section)\<rparr>"

definition migrate_new_section :: "string \<Rightarrow> state \<Rightarrow> error option \<times> state" where
  "migrate_new_section sname st =
     (case st of (fs, self) \<Rightarrow>
        (case map_of (source_sections self) sname of
           None \<Rightarrow> (Some (KeyError sname), st)
         | Some source_section \<Rightarrow>
             (case read_gradle_file fs (build_target_gradle_path self) of
                Inl e \<Rightarrow> (Some e, st)
              | Inr target_lines \<Rightarrow>
                  (let migration_comment =
                         ''// Section Added in migration from source project'' @ [LF];
                       insert_position =
                         find_last_close target_lines (length target_lines)
                           (length target_lines);
                       new_section_content =
                         [migration_comment] @ content source_section @ [[LF]];
                       target_lines' = insert_at insert_position new_section_content target_lines
                   in (None,
                       (fs(build_target_gradle_path self \<mapsto> writelines target_lines'),
                        self\<lparr>migration_changes :=
                               migration_changes self @ [add_change sname source_section]\<rparr>))))))"

text \<open>
  \<^verbatim>\<open>
  for i in range(section_start, len(target_lines)):
      if '{' in target_lines[i]:
          insert_position = i + 1
          break
  \<close>
  from the index \<open>i\<close>, with \<open>d\<close> the value \<open>insert_position\<close> has before the loop.
\<close>

function find_open_brace :: "string list \<Rightarrow> nat \<Rightarrow> nat \<Rightarrow> nat" where
  "find_open_brace target_lines i d =
     (if i < length target_lines
      then (if CHR ''{'' \<in> set (target_lines ! i) then i + 1
            else find_open_brace target_lines (i + 1) d)
      else d)"
  by pat_completeness auto
termination
  by (relation "measure (\<lambda>(target_lines, i, d). length target_lines - i)") auto

declare find_open_brace.simps [simp del]

text \<open>The lines of the source section that the target section lacks.\<close>

definition new_content_of :: "GradleSection \<Rightarrow> GradleSection \<Rightarrow> string list" where
  "new_content_of source_section target_section =
     (let source_content_lines = extract_content_lines (content source_section);
          target_content_lines = extract_content_lines (content target_section)
      in [line \<leftarrow> source_content_lines. line \<notin> set target_content_lines])"

definition new_content_lines_of :: "string list \<Rightarrow> string list" where
  "new_content_lines_of new_content =
     concat (map (\<lambda>c. if c \<noteq> [] \<and> \<not> startswith c ''//''
                       then [''    // Added as part of migration from source to target'' @ [LF],
                             ''    '' @ c @ [LF]]
                       else [])
                 new_content)"

definition update_change :: "string \<Rightarrow> string list \<Rightarrow> MigrationChange" where
  "update_change sname new_content =
     \<lparr>section_name = sname,
      change_type = ''UPDATE'',
      description = ''Updated section '' @ [CHR 0x27] @ sname @ [CHR 0x27]
                    @ '' with new content from source'',
      details = new_content\<rparr>"

definition migrate_existing_section :: "string \<Rightarrow> state \<Rightarrow> error option \<times> state" where
  "migrate_existing_section sname st =
     (case st of (fs, self) \<Rightarrow>
        (case map_of (source_sections self) sname of
           None \<Rightarrow> (Some (KeyError sname), st)
         | Some source_section \<Rightarrow>
             (case map_of (target_sections self) sname of
                None \<Rightarrow> (Some (KeyError sname), st)
              | Some target_section \<Rightarrow>
                  (case read_gradle_file fs (build_target_gradle_path self) of
                     Inl e \<Rightarrow> (Some e, st)
                   | Inr target_lines \<Rightarrow>
                       (let new_content = new_content_of source_section target_section
                        in if new_content = [] then (None, st)
                           else
                             (let migration_comment =
                                    ''// Section updated in migration from source to target''
                                    @ [LF];
                                  section_start = start_line target_section;
                                  target_lines1 =
                                    insert_at section_start [migration_comment] target_lines;
                                  insert_position =
                                    find_open_brace target_lines1 section_start
                                      (section_start + 1);
                                  target_lines2 =
                                    insert_at insert_position
                                      (new_content_lines_of new_content) target_lines1
                              in (None,
                                  (fs(build_target_gradle_path self \<mapsto>
                                        writelines target_lines2),
                                   self\<lparr>migration_changes :=
                                          migration_changes self
                                          @ [update_change sname new_content]\<rparr>))))))))"

text \<open>A \<open>for\<close> loop over names whose body may raise: the first exception ends the loop.\<close>

fun for_each ::
  "(string \<Rightarrow> state \<Rightarrow> error option \<times> state) \<Rightarrow> string list \<Rightarrow> state
   \<Rightarrow> error option \<times> state" where
  "for_each body [] st = (None, st)"
| "for_each body (x # xs) st =
     (case body x st of
        (Some e, st') \<Rightarrow> (Some e, st')
      | (None, st') \<Rightarrow> for_each body xs st')"

text \<open>
  \<open>migrate_sections\<close> iterates over two Python sets of strings. The order in which a set
  yields its elements is fixed by the hashes of the strings, which CPython salts anew in
  every process; the language promises no order. The order is therefore a parameter:
  \<open>set_iter\<close> takes the elements of a set, listed without repetition in the order of the
  dictionary keys they come from, and returns them in the order the set yields them.
\<close>

definition keys :: "sections \<Rightarrow> string list" where
  "keys d = remdups (map fst d)"

definition migrate_sections ::
  "(string list \<Rightarrow> string list) \<Rightarrow> state \<Rightarrow> error option \<times> state" where
  "migrate_sections set_iter st =
     (let source_only_sections =
            set_iter [k \<leftarrow> keys (source_sections (snd st)).
                        k \<notin> set (keys (target_sections (snd st)))]
      in case for_each migrate_new_section source_only_sections st of
           (Some e, st1) \<Rightarrow> (Some e, st1)
         | (None, st1) \<Rightarrow>
             (let common_sections =
                    set_iter [k \<leftarrow> keys (source_sections (snd st1)).
                                k \<in> set (keys (target_sections (snd st1)))]
              in for_each migrate_existing_section common_sections st1))"

section \<open>The structural validator\<close>

text \<open>
  The character loop of the brace check, from the running count \<open>n\<close>: \<open>None\<close> when the
  count falls below zero, which returns from the validator at once.
\<close>

fun count_braces :: "string \<Rightarrow> int \<Rightarrow> int option" where
  "count_braces [] n = Some n"
| "count_braces (c # cs) n =
     (if c = CHR ''{'' then count_braces cs (n + 1)
      else if c = CHR ''}'' then (if n - 1 < 0 then None else count_braces cs (n - 1))
      else count_braces cs n)"

definition add_validation_error :: "string \<Rightarrow> state \<Rightarrow> state" where
  "add_validation_error msg st =
     (fst st, (snd st)\<lparr>validation_errors := validation_errors (snd st) @ [msg]\<rparr>)"

definition validate_gradle_structure ::
  "(string list \<Rightarrow> string list) \<Rightarrow> state \<Rightarrow> bool \<times> state" where
  "validate_gradle_structure set_iter st =
     (case st of (fs, self) \<Rightarrow>
        (case read_gradle_file fs (build_target_gradle_path self) of
           Inl e \<Rightarrow> (False, add_validation_error (''Validation error: '' @ str_error e) st)
         | Inr target_lines \<Rightarrow>
             (case count_braces (concat target_lines) 0 of
                None \<Rightarrow> (False, add_validation_error ''Unbalanced braces detected'' st)
              | Some brace_count \<Rightarrow>
                  if brace_count \<noteq> 0
                  then (False,
                        add_validation_error
                          (''Unbalanced braces: '' @ str_int brace_count @ '' unclosed braces'')
                          st)
                  else
                    (let sections = identify_sections target_lines;
                         section_names = map (\<lambda>(k, section). name section) sections;
                         duplicates =
                           [n \<leftarrow> set_iter (remdups section_names).
                              count_list section_names n > 1]
                     in if duplicates \<noteq> []
                        then (False,
                              add_validation_error
                                (''Duplicate sections found: '' @ join '', '' duplicates) st)
                        else (True, st)))))"

section \<open>The summary and the run\<close>

text \<open>\<open>enumerate(xs, 1)\<close>\<close>

definition enumerate1 :: "'a list \<Rightarrow> (nat \<times> 'a) list" where
  "enumerate1 xs = zip [1 ..< Suc (length xs)] xs"

definition summary_added :: "MigrationChange \<Rightarrow> string" where
  "summary_added change =
     ''Section: '' @ section_name change @ [LF]
     @ ''Description: '' @ description change @ [LF]
     @ concat (map (\<lambda>(i, detail). ''  Change-'' @ str_nat i @ '': '' @ detail @ [LF])
                   (enumerate1 (drop 1 (details change))))
     @ [LF]"

definition summary_updated :: "MigrationChange \<Rightarrow> string" where
  "summary_updated change =
     ''Section: '' @ section_name change @ [LF]
     @ ''Description: '' @ description change @ [LF]
     @ concat (map (\<lambda>(i, detail). ''Change-'' @ str_nat i @ '': '' @ detail @ [LF])
                   (enumerate1 (details change)))
     @ [LF]"

definition generate_summary :: "migrator \<Rightarrow> string" where
  "generate_summary self =
     (let summary0 = ''=== BuildGradle Migration Summary ==='' @ [LF, LF]
      in if migration_changes self = []
         then summary0 @ ''No changes were made during migration.'' @ [LF]
         else
           (let added_sections = [c \<leftarrow> migration_changes self. change_type c = ''ADD''];
                updated_sections = [c \<leftarrow> migration_changes self. change_type c = ''UPDATE''];
                summary1 =
                  (if added_sections \<noteq> []
                   then summary0 @ ''=== Added Sections ==='' @ [LF]
                        @ concat (map summary_added added_sections)
                   else summary0);
                summary2 =
                  (if updated_sections \<noteq> []
                   then summary1 @ ''=== Updated Sections ==='' @ [LF]
                        @ concat (map summary_updated updated_sections)
                   else summary1);
                summary3 = summary2 @ ''=== Validation Results ==='' @ [LF]
            in if validation_errors self \<noteq> []
               then summary3 @ ''Validation FAILED:'' @ [LF]
                    @ concat (map (\<lambda>e. ''  - '' @ e @ [LF]) (validation_errors self))
               else summary3 @ ''Validation PASSED: All checks completed successfully.''
                    @ [LF]))"

definition run_migration ::
  "(string list \<Rightarrow> string list) \<Rightarrow> state \<Rightarrow> string \<times> state" where
  "run_migration set_iter st =
     (case parse_gradle_files st of
        (Some e, st1) \<Rightarrow> (''Migration failed with error: '' @ str_error e, st1)
      | (None, st1) \<Rightarrow>
          (case migrate_sections set_iter st1 of
             (Some e, st2) \<Rightarrow> (''Migration failed with error: '' @ str_error e, st2)
           | (None, st2) \<Rightarrow>
               (case validate_gradle_structure set_iter st2 of
                  (validation_passed, (fs3, self3)) \<Rightarrow>
                    (let summary = generate_summary self3
                     in (summary,
                         (fs3(''build_gradle_migration_result.txt'' \<mapsto> summary),
                          self3))))))"

section \<open>Notions of the specification\<close>

text \<open>
  The insertion point of a new section as the specification words it: the last line that,
  trimmed, is exactly a closing brace, and the end of the file when there is none.
\<close>

definition last_standalone_close :: "string list \<Rightarrow> nat \<Rightarrow> bool" where
  "last_standalone_close ls p =
     (if \<exists>j<length ls. strip (ls ! j) = ''}''
      then p < length ls \<and> strip (ls ! p) = ''}'' \<and>
           (\<forall>j<length ls. p < j \<longrightarrow> strip (ls ! j) \<noteq> ''}'')
      else p = length ls)"

text \<open>The number a decimal numeral denotes.\<close>

definition decimal_value :: "string \<Rightarrow> nat" where
  "decimal_value s = foldl (\<lambda>v c. 10 * v + (of_char c - 48)) 0 s"

text \<open>
  The net brace count of a list of lines, opening minus closing braces. The counter of a
  capture starts at 1 after the opening line, so after the last line of a section it is
  1 plus the net count of the lines after the first: the block has reached its matching
  close when that is 0, and is still open at the end of the capture when it is positive.
\<close>

definition net_braces :: "string list \<Rightarrow> int" where
  "net_braces ls = sum_list (map brace_delta ls)"

definition block_closed :: "GradleSection \<Rightarrow> bool" where
  "block_closed s = (1 + net_braces (tl (content s)) = 0)"

definition block_open :: "GradleSection \<Rightarrow> bool" where
  "block_open s = (0 < 1 + net_braces (tl (content s)))"

text \<open>The content of a section is the lines from its start line to its end line.\<close>

definition section_spans :: "string list \<Rightarrow> GradleSection \<Rightarrow> bool" where
  "section_spans lines s =
     (start_line s \<le> end_line s \<and> end_line s < length lines \<and>
      content s = take (Suc (end_line s) - start_line s) (drop (start_line s) lines))"

text \<open>
  The invariant of the outer loop at the index \<open>i\<close>: the keys are distinct; every section
  is stored under its name, spans its lines, ends before \<open>i\<close> and, when its block is still
  open, ends with the input; sections under different names lie apart.
\<close>

definition scan_inv :: "string list \<Rightarrow> nat \<Rightarrow> sections \<Rightarrow> bool" where
  "scan_inv lines i secs =
     (distinct (map fst secs) \<and>
      (\<forall>(k, s) \<in> set secs.
         name s = k \<and> section_spans lines s \<and> end_line s < i \<and>
         (block_open s \<longrightarrow> Suc (end_line s) = length lines)) \<and>
      (\<forall>(k, s) \<in> set secs. \<forall>(k', s') \<in> set secs.
         k \<noteq> k' \<longrightarrow> end_line s < start_line s' \<or> end_line s' < start_line s))"

text \<open>
  An order in which sets yield their elements: every element of the set once.
\<close>

definition set_order :: "(string list \<Rightarrow> string list) \<Rightarrow> bool" where
  "set_order set_iter = (\<forall>xs. distinct xs \<longrightarrow> distinct (set_iter xs) \<and> set (set_iter xs) = set xs)"

text \<open>The records the common-section step appends for a name: one Update record when the
  source section has lines the target section lacks, none otherwise.\<close>

definition update_changes :: "migrator \<Rightarrow> string \<Rightarrow> MigrationChange list" where
  "update_changes self sname =
     (let new_content = new_content_of (the (map_of (source_sections self) sname))
                                       (the (map_of (target_sections self) sname))
      in if new_content = [] then [] else [update_change sname new_content])"




section \<open>Example files\<close>

text \<open>A text from its lines, each ended by a newline.\<close>

definition text_of :: "string list \<Rightarrow> string" where
  "text_of ls = concat (map (\<lambda>l. l @ [LF]) ls)"

text \<open>
  A source with a section the target lacks (\<open>ext\<close>) and a section both have
  (\<open>repositories\<close>), which the target writes on one line after its last closing brace.
\<close>

definition ex_source :: string where
  "ex_source = text_of [''repositories {'', ''    mavenCentral()'', ''}'', ''ext {'', ''}'']"

definition ex_target :: string where
  "ex_target = text_of [''plugins {'', ''}'', ''repositories { }'']"

definition ex_fs :: filesystem where
  "ex_fs = [''source.gradle'' \<mapsto> ex_source, ''target.gradle'' \<mapsto> ex_target]"

definition ex_migrator :: migrator where
  "ex_migrator = init ''source.gradle'' ''target.gradle''"

text \<open>The migrator after \<open>parse_gradle_files\<close> on these files.\<close>

definition ex_parsed :: migrator where
  "ex_parsed = ex_migrator
     \<lparr>source_sections := identify_sections (readlines (universal_newlines False ex_source)),
      target_sections := identify_sections (readlines (universal_newlines False ex_target))\<rparr>"

text \<open>A common section whose source lines the target already has.\<close>

definition ex2_source :: string where
  "ex2_source = text_of [''plugins {'', ''    id java'', ''}'']"

definition ex2_target :: string where
  "ex2_target = text_of [''// build'', ''plugins {'', ''    id application'', ''    id java'', ''}'']"

definition ex2_fs :: filesystem where
  "ex2_fs = [''source.gradle'' \<mapsto> ex2_source, ''target.gradle'' \<mapsto> ex2_target]"

definition ex2_parsed :: migrator where
  "ex2_parsed = ex_migrator
     \<lparr>source_sections := identify_sections (readlines (universal_newlines False ex2_source)),
      target_sections := identify_sections (readlines (universal_newlines False ex2_target))\<rparr>"

text \<open>A line of a block that carries content and ends with a brace.\<close>

definition ex_brace_line :: string where
  "ex_brace_line = ''    doLast { enabled = true }'' @ [LF]"

text \<open>A target with two top-level blocks named \<open>plugins\<close>.\<close>

definition ex_dup_target :: string where
  "ex_dup_target = text_of [''plugins {'', ''    id java'', ''}'',
                            ''plugins {'', ''    id application'', ''}'']"

definition ex_dup_fs :: filesystem where
  "ex_dup_fs = [''target.gradle'' \<mapsto> ex_dup_target]"

text \<open>A target without a closing-brace line whose last line has no newline.\<close>

definition ex3_source :: string where
  "ex3_source = text_of [''ext {'', ''}'']"

definition ex3_target :: string where
  "ex3_target = ''version = 1''"

definition ex3_fs :: filesystem where
  "ex3_fs = [''source.gradle'' \<mapsto> ex3_source, ''target.gradle'' \<mapsto> ex3_target]"

definition ex3_parsed :: migrator where
  "ex3_parsed = ex_migrator
     \<lparr>source_sections := identify_sections (readlines (universal_newlines False ex3_source)),
      target_sections := identify_sections (readlines (universal_newlines False ex3_target))\<rparr>"

text \<open>A target whose last line opens a common section and has no newline.\<close>

definition ex4_source :: string where
  "ex4_source = text_of [''dependencies {'', ''    implementation lib'', ''}'']"

definition ex4_target :: string where
  "ex4_target = text_of [''// build''] @ ''dependencies { }''"

definition ex4_fs :: filesystem where
  "ex4_fs = [''source.gradle'' \<mapsto> ex4_source, ''target.gradle'' \<mapsto> ex4_target]"

definition ex4_parsed :: migrator where
  "ex4_parsed = ex_migrator
     \<lparr>source_sections := identify_sections (readlines (universal_newlines False ex4_source)),
      target_sections := identify_sections (readlines (universal_newlines False ex4_target))\<rparr>"

text \<open>The lines of the first example, and the sections the scanner finds in them.\<close>

definition ex_source_lines :: "string list" where
  "ex_source_lines = readlines (universal_newlines False ex_source)"

definition ex_target_lines0 :: "string list" where
  "ex_target_lines0 = readlines (universal_newlines False ex_target)"

definition ex_sec_repositories :: GradleSection where
  "ex_sec_repositories =
     \<lparr>name = ''repositories'',
      content = [''repositories {'' @ [LF], ''    mavenCentral()'' @ [LF], ''}'' @ [LF]],
      start_line = 0, end_line = 2, section_type = REPOSITORIES, indentation = ''''\<rparr>"

definition ex_sec_ext :: GradleSection where
  "ex_sec_ext =
     \<lparr>name = ''ext'', content = [''ext {'' @ [LF], ''}'' @ [LF]], start_line = 3,
      end_line = 4, section_type = CUSTOM, indentation = ''''\<rparr>"

definition ex_sec_target_repositories :: GradleSection where
  "ex_sec_target_repositories =
     \<lparr>name = ''repositories'', content = [''repositories { }'' @ [LF]],
      start_line = 2, end_line = 2, section_type = REPOSITORIES, indentation = ''''\<rparr>"

text \<open>A balanced file whose first line opens two blocks.\<close>

definition ex_nested_lines :: "string list" where
  "ex_nested_lines = [''a { b {'' @ [LF], ''}'' @ [LF], ''}'' @ [LF]]"

definition ex_sec_nested :: GradleSection where
  "ex_sec_nested =
     \<lparr>name = ''a'', content = [''a { b {'' @ [LF], ''}'' @ [LF]], start_line = 0,
      end_line = 1, section_type = CUSTOM, indentation = ''''\<rparr>"

text \<open>A target that lacks both sections of the first source.\<close>

definition ex5_target :: string where
  "ex5_target = text_of [''plugins {'', ''}'']"

definition ex5_fs :: filesystem where
  "ex5_fs = [''source.gradle'' \<mapsto> ex_source, ''target.gradle'' \<mapsto> ex5_target]"

definition ex5_parsed :: migrator where
  "ex5_parsed = ex_migrator
     \<lparr>source_sections := identify_sections (readlines (universal_newlines False ex_source)),
      target_sections := identify_sections (readlines (universal_newlines False ex5_target))\<rparr>"



section \<open>Facts about the example files\<close>

lemma ex_migrator_paths:
  "build_source_gradle_path ex_migrator = ''source.gradle''"
  "build_target_gradle_path ex_migrator = ''target.gradle''"
  "migration_changes ex_migrator = []"
  by (simp_all add: ex_migrator_def init_def)

lemma ex_parsed_paths:
  "build_source_gradle_path ex_parsed = ''source.gradle''"
  "build_target_gradle_path ex_parsed = ''target.gradle''"
  "migration_changes ex_parsed = []"
  by (simp_all add: ex_parsed_def ex_migrator_def init_def)

lemma ex2_parsed_paths:
  "build_target_gradle_path ex2_parsed = ''target.gradle''"
  by (simp add: ex2_parsed_def ex_migrator_def init_def)

lemma ex_parsed_ext:
  "map_of (source_sections ex_parsed) ''ext'' =
     Some \<lparr>name = ''ext'', content = [''ext {'' @ [LF], ''}'' @ [LF]], start_line = 3,
           end_line = 4, section_type = CUSTOM, indentation = ''''\<rparr>"
  by code_simp

lemma ex_target_lines:
  "read_gradle_file ex_fs (build_target_gradle_path ex_parsed) =
     Inr [''plugins {'' @ [LF], ''}'' @ [LF], ''repositories { }'' @ [LF]]"
  by code_simp

lemma str_nat_2: "str_nat (Suc (Suc 0)) = ''2''"
  by code_simp

section \<open>The new-section step\<close>

lemma find_last_close_found:
  "n \<le> length ls \<Longrightarrow> \<exists>j<n. strip (ls ! j) = ''}'' \<Longrightarrow>
   find_last_close ls n d < n \<and> strip (ls ! find_last_close ls n d) = ''}'' \<and>
   (\<forall>j<n. find_last_close ls n d < j \<longrightarrow> strip (ls ! j) \<noteq> ''}'')"
proof (induction n)
  case 0
  then show ?case by simp
next
  case (Suc n)
  show ?case
  proof (cases "strip (ls ! n) = ''}''")
    case True
    then show ?thesis by simp
  next
    case False
    with Suc.prems(2) have ex: "\<exists>j<n. strip (ls ! j) = ''}''"
      by (metis less_Suc_eq)
    from Suc.prems(1) have "n \<le> length ls" by simp
    from Suc.IH [OF this ex] False show ?thesis
      by (auto simp: less_Suc_eq)
  qed
qed

lemma find_last_close_none:
  "\<forall>j<n. strip (ls ! j) \<noteq> ''}'' \<Longrightarrow> find_last_close ls n d = d"
  by (induction n) auto

lemma find_last_close_spec:
  "last_standalone_close ls (find_last_close ls (length ls) (length ls))"
proof (cases "\<exists>j<length ls. strip (ls ! j) = ''}''")
  case True
  from find_last_close_found [OF le_refl True, of "length ls"] True show ?thesis
    unfolding last_standalone_close_def by simp
next
  case False
  then have "find_last_close ls (length ls) (length ls) = length ls"
    by (intro find_last_close_none) simp
  with False show ?thesis
    unfolding last_standalone_close_def by simp
qed

lemma last_standalone_close_unique:
  assumes "last_standalone_close ls p" and "last_standalone_close ls q"
  shows "p = q"
proof (cases "\<exists>j<length ls. strip (ls ! j) = ''}''")
  case True
  with assms have p: "p < length ls" "strip (ls ! p) = ''}''"
      "\<forall>j<length ls. p < j \<longrightarrow> strip (ls ! j) \<noteq> ''}''"
    and q: "q < length ls" "strip (ls ! q) = ''}''"
      "\<forall>j<length ls. q < j \<longrightarrow> strip (ls ! j) \<noteq> ''}''"
    unfolding last_standalone_close_def by simp_all
  from p(3) q(1,2) have "\<not> p < q" by blast
  moreover from q(3) p(1,2) have "\<not> q < p" by blast
  ultimately show ?thesis by simp
next
  case False
  with assms show ?thesis
    unfolding last_standalone_close_def by simp
qed

lemma last_standalone_close_iff:
  "last_standalone_close ls p \<longleftrightarrow> p = find_last_close ls (length ls) (length ls)"
  using last_standalone_close_unique find_last_close_spec by blast

lemma decimal_value_str_nat: "decimal_value (str_nat n) = n"
  unfolding decimal_value_def
proof (induction n rule: str_nat.induct)
  case (1 n)
  show ?case
  proof (cases "n < 10")
    case True
    then show ?thesis by (subst str_nat.simps) (simp add: digit_def)
  next
    case False
    have "n mod 10 < 10" by simp
    then have d: "of_char (digit (n mod 10)) = 48 + n mod 10"
      unfolding digit_def by simp
    from False 1 d show ?thesis
      by (subst str_nat.simps) simp
  qed
qed

text \<open>
  C5. When the section is in the source mapping and the target file can be read, the
  new-section step writes back the lines it read with the marker comment, the whole
  content of the source section and a line break inserted at the last line that, trimmed,
  is exactly a closing brace (at the end when there is none), and it appends an Add change
  whose first detail gives the number of lines of the content in decimal.
\<close>

theorem new_section_inserted_at_last_close:
  assumes src: "map_of (source_sections self) sname = Some source_section"
      and rd: "read_gradle_file fs (build_target_gradle_path self) = Inr target_lines"
  shows "\<exists>p. last_standalone_close target_lines p \<and>
           decimal_value (str_nat (length (content source_section)))
             = length (content source_section) \<and>
           migrate_new_section sname (fs, self) =
             (None,
              (fs(build_target_gradle_path self \<mapsto>
                    writelines
                      (take p target_lines
                       @ [''// Section Added in migration from source project'' @ [LF]]
                       @ content source_section @ [[LF]]
                       @ drop p target_lines)),
               self\<lparr>migration_changes :=
                      migration_changes self
                      @ [\<lparr>section_name = sname, change_type = ''ADD'',
                          description = ''Added new section '' @ [CHR 0x27] @ sname
                                        @ [CHR 0x27] @ '' from source project'',
                          details =
                            (''Added complete section with ''
                             @ str_nat (length (content source_section)) @ '' lines'')
                            # extract_content_lines (content source_section)\<rparr>]\<rparr>))"
  using find_last_close_spec [of target_lines] src rd
  by (intro exI [of _ "find_last_close target_lines (length target_lines) (length target_lines)"])
     (simp add: migrate_new_section_def insert_at_def add_change_def Let_def
        decimal_value_str_nat)

theorem new_section_inserted_at_last_close_witness:
  "fst (snd (migrate_new_section ''ext'' (ex_fs, ex_parsed))) ''target.gradle'' =
     Some (text_of [''plugins {'', ''// Section Added in migration from source project'',
                    ''ext {'', ''}'', '''', ''}'', ''repositories { }'']) \<and>
   map details (migration_changes (snd (snd (migrate_new_section ''ext'' (ex_fs, ex_parsed)))))
     = [[''Added complete section with 2 lines'']]"
  using new_section_inserted_at_last_close [OF ex_parsed_ext ex_target_lines,
      unfolded last_standalone_close_iff]
  by (auto simp: ex_parsed_paths writelines_def text_of_def strip_def isspace_def
        str_nat_2 extract_content_lines_def content_line_def startswith_def endswith_def)

section \<open>The common-section step\<close>

text \<open>
  C6. When every meaningful line of the source section is among the meaningful lines of
  the target section, the common-section step leaves the file system and the migrator as
  they are: no write and no change record. It returns normally when the target file
  exists, and raises the error of the read when it does not.
\<close>

theorem common_section_without_new_lines_unchanged:
  assumes "map_of (source_sections self) sname = Some s"
      and "map_of (target_sections self) sname = Some t"
      and "set (extract_content_lines (content s)) \<subseteq> set (extract_content_lines (content t))"
  shows "migrate_existing_section sname (fs, self) =
           ((case fs (build_target_gradle_path self) of
               None \<Rightarrow>
                 Some (FileNotFoundError (''File not found: '' @ build_target_gradle_path self))
             | Some body \<Rightarrow> None),
            (fs, self))"
proof -
  from assms(3) have "new_content_of s t = []"
    unfolding new_content_of_def Let_def by (auto simp: filter_empty_conv)
  with assms(1,2) show ?thesis
    by (simp add: migrate_existing_section_def read_gradle_file_def split: option.splits)
qed

theorem common_section_without_new_lines_unchanged_witness:
  "migrate_existing_section ''plugins'' (ex2_fs, ex2_parsed) = (None, (ex2_fs, ex2_parsed))"
proof -
  let ?s = "the (map_of (source_sections ex2_parsed) ''plugins'')"
  let ?t = "the (map_of (target_sections ex2_parsed) ''plugins'')"
  have s: "map_of (source_sections ex2_parsed) ''plugins'' = Some ?s" by code_simp
  have t: "map_of (target_sections ex2_parsed) ''plugins'' = Some ?t" by code_simp
  have sub: "set (extract_content_lines (content ?s)) \<subseteq> set (extract_content_lines (content ?t))"
    by code_simp
  from common_section_without_new_lines_unchanged [OF s t sub, of ex2_fs]
  show ?thesis
    by (simp add: ex2_parsed_paths ex2_fs_def)
qed

text \<open>
  Where the common-section step writes its marker: at the start line the mapping holds for
  the section, which is the one of the parse that filled the mapping, whatever lines the
  step has just read.
\<close>

lemma find_open_brace_beyond: "k \<le> i \<Longrightarrow> k < d \<Longrightarrow> k < find_open_brace ls i d"
proof (induction ls i d rule: find_open_brace.induct)
  case (1 target_lines i d)
  show ?case
  proof (cases "i < length target_lines \<and> CHR ''{'' \<notin> set (target_lines ! i)")
    case True
    with "1.IH" "1.prems" have "k < find_open_brace target_lines (i + 1) d" by simp
    with True show ?thesis by (simp add: find_open_brace.simps [of target_lines i])
  next
    case False
    with "1.prems" show ?thesis
      by (auto simp: find_open_brace.simps [of target_lines i])
  qed
qed

lemma nth_insert_at_before:
  "p < q \<Longrightarrow> p < length xs \<Longrightarrow> insert_at q ys xs ! p = xs ! p"
  by (simp add: insert_at_def nth_append)

lemma nth_insert_at_here: "p \<le> length xs \<Longrightarrow> insert_at p (y # ys) xs ! p = y"
  by (simp add: insert_at_def nth_append)

lemma update_marker_at_recorded_start:
  assumes src: "map_of (source_sections self) sname = Some source_section"
      and tgt: "map_of (target_sections self) sname = Some target_section"
      and rd: "read_gradle_file fs (build_target_gradle_path self) = Inr target_lines"
      and new: "new_content_of source_section target_section \<noteq> []"
      and start: "start_line target_section \<le> length target_lines"
  shows "\<exists>written.
           migrate_existing_section sname (fs, self) =
             (None,
              (fs(build_target_gradle_path self \<mapsto> writelines written),
               self\<lparr>migration_changes :=
                      migration_changes self
                      @ [update_change sname (new_content_of source_section target_section)]\<rparr>))
           \<and> written ! start_line target_section
               = ''// Section updated in migration from source to target'' @ [LF]"
proof -
  define marker where "marker = ''// Section updated in migration from source to target'' @ [LF]"
  let ?p = "start_line target_section"
  let ?L1 = "insert_at ?p [marker] target_lines"
  let ?q = "find_open_brace ?L1 ?p (?p + 1)"
  let ?L = "insert_at ?q (new_content_lines_of (new_content_of source_section target_section)) ?L1"
  have q: "?p < ?q" by (rule find_open_brace_beyond) simp_all
  from start have len: "?p < length ?L1" by (simp add: insert_at_def)
  from start have "?L1 ! ?p = marker" by (rule nth_insert_at_here)
  with nth_insert_at_before [OF q len] have "?L ! ?p = marker" by simp
  with src tgt rd new show ?thesis
    by (intro exI [of _ ?L]) (simp add: migrate_existing_section_def Let_def marker_def)
qed

section \<open>Missing files\<close>

text \<open>
  C8. When the source path or the target path names no file, \<open>parse_gradle_files\<close> raises
  \<open>FileNotFoundError\<close> for that path, \<open>run_migration\<close> returns the failure message for it,
  and the run leaves the file system and the change log as they were.
\<close>

theorem run_migration_missing_file:
  assumes "fs (build_source_gradle_path self) = None \<or> fs (build_target_gradle_path self) = None"
  shows "\<exists>p self'.
           p \<in> {build_source_gradle_path self, build_target_gradle_path self} \<and> fs p = None \<and>
           parse_gradle_files (fs, self) =
             (Some (FileNotFoundError (''Error reading Gradle file: File not found: '' @ p)),
              (fs, self')) \<and>
           run_migration set_iter (fs, self) =
             (''Migration failed with error: Error reading Gradle file: File not found: '' @ p,
              (fs, self')) \<and>
           migration_changes self' = migration_changes self \<and>
           build_target_gradle_path self' = build_target_gradle_path self"
proof (cases "fs (build_source_gradle_path self)")
  case None
  then show ?thesis
    by (intro exI [of _ "build_source_gradle_path self"] exI [of _ self])
       (simp add: parse_gradle_files_def run_migration_def read_gradle_file_def)
next
  case (Some body)
  let ?self' =
    "self\<lparr>source_sections := identify_sections (readlines (universal_newlines False body))\<rparr>"
  from Some assms have "fs (build_target_gradle_path self) = None" by simp
  with Some show ?thesis
    by (intro exI [of _ "build_target_gradle_path self"] exI [of _ ?self'])
       (simp add: parse_gradle_files_def run_migration_def read_gradle_file_def Let_def)
qed

theorem run_migration_missing_file_witness:
  "run_migration id ([''source.gradle'' \<mapsto> ex_source], ex_migrator) =
     (''Migration failed with error: Error reading Gradle file: File not found: target.gradle'',
      ([''source.gradle'' \<mapsto> ex_source],
       ex_migrator\<lparr>source_sections :=
                     identify_sections (readlines (universal_newlines False ex_source))\<rparr>))"
proof -
  let ?fs = "[''source.gradle'' \<mapsto> ex_source]"
  have missing: "?fs (build_source_gradle_path ex_migrator) = None
      \<or> ?fs (build_target_gradle_path ex_migrator) = None"
    by (simp add: ex_migrator_paths)
  have parse: "parse_gradle_files (?fs, ex_migrator) =
      (Some (FileNotFoundError (''Error reading Gradle file: File not found: target.gradle'')),
       (?fs, ex_migrator\<lparr>source_sections :=
                     identify_sections (readlines (universal_newlines False ex_source))\<rparr>))"
    by (simp add: parse_gradle_files_def read_gradle_file_def ex_migrator_paths Let_def)
  from run_migration_missing_file [OF missing, of id] obtain p self' where
    P: "parse_gradle_files (?fs, ex_migrator) =
          (Some (FileNotFoundError (''Error reading Gradle file: File not found: '' @ p)),
           (?fs, self'))"
    and R: "run_migration id (?fs, ex_migrator) =
          (''Migration failed with error: Error reading Gradle file: File not found: '' @ p,
           (?fs, self'))"
    by blast
  from P [unfolded parse] have "p = ''target.gradle''"
    and "self' = ex_migrator\<lparr>source_sections :=
                     identify_sections (readlines (universal_newlines False ex_source))\<rparr>"
    by simp_all
  with R show ?thesis by simp
qed

section \<open>Meaningful lines\<close>

lemma startswith_prefix: "startswith s p \<longleftrightarrow> prefix p s"
  unfolding startswith_def
  by (metis append_eq_conv_conj prefix_def take_is_prefix)

lemma startswith_char: "startswith s [c] \<longleftrightarrow> s \<noteq> [] \<and> hd s = c"
  unfolding startswith_def by (cases s) auto

lemma endswith_char: "endswith s [c] \<longleftrightarrow> s \<noteq> [] \<and> last s = c"
proof (cases s rule: rev_cases)
  case Nil
  then show ?thesis by (simp add: endswith_def)
next
  case (snoc ys y)
  then show ?thesis by (auto simp: endswith_def)
qed

text \<open>
  C4, as amended. The meaningful lines of a content are its trimmed lines that are not
  empty, do not begin with \<open>//\<close> or \<open>/*\<close>, and neither begin nor end with an opening or
  closing brace. A line that carries content and ends (or begins) with a brace is
  therefore not meaningful.
\<close>

theorem meaningful_lines_characterisation:
  "extract_content_lines ls =
     filter (\<lambda>s. s \<noteq> [] \<and> \<not> prefix ''//'' s \<and> \<not> prefix ''/*'' s \<and>
                  hd s \<notin> {CHR ''{'', CHR ''}''} \<and> last s \<notin> {CHR ''{'', CHR ''}''})
            (map strip ls)"
  unfolding extract_content_lines_def
  by (rule filter_cong [OF refl])
     (auto simp: content_line_def startswith_prefix [symmetric] startswith_char endswith_char)

text \<open>
  C4 as stated fails: the line \<open>doLast { enabled = true }\<close> is not blank, not a comment and
  not a lone brace, and it is not among the meaningful lines.
\<close>

theorem brace_ending_line_not_meaningful:
  "strip ex_brace_line = ''doLast { enabled = true }'' \<and>
   strip ex_brace_line \<noteq> [] \<and>
   \<not> startswith (strip ex_brace_line) ''//'' \<and>
   \<not> startswith (strip ex_brace_line) ''/*'' \<and>
   strip ex_brace_line \<noteq> ''{'' \<and> strip ex_brace_line \<noteq> ''}'' \<and>
   extract_content_lines [ex_brace_line] = []"
  by code_simp

section \<open>Runs on the example files\<close>

text \<open>
  C3. On a target with two top-level \<open>plugins\<close> blocks the validator returns \<open>True\<close> and
  records no error: the scanner's dictionary holds one entry per name, so the list of
  names it is asked for has no repetition.
\<close>

theorem duplicate_plugins_pass_validation:
  "fst (validate_gradle_structure id (ex_dup_fs, ex_migrator)) = True \<and>
   validation_errors (snd (snd (validate_gradle_structure id (ex_dup_fs, ex_migrator)))) = [] \<and>
   map fst (identify_sections (readlines (universal_newlines False ex_dup_target))) = [''plugins'']"
  by code_simp

text \<open>
  C1. The common-section step takes the start line from the mapping of the first parse.
  In the example the new section \<open>ext\<close> is inserted before \<open>repositories\<close>, which moves it
  from line 2 to line 6; the update marker still goes to line 2 and the new line
  \<open>mavenCentral()\<close> lands in \<open>ext\<close>, the first block after line 2.
\<close>

theorem stale_start_line_misplaces_update:
  "parse_gradle_files (ex_fs, ex_migrator) = (None, (ex_fs, ex_parsed)) \<and>
   map_option start_line (map_of (target_sections ex_parsed) ''repositories'') = Some 2 \<and>
   map_option start_line
     (map_of (identify_sections
                (readlines (universal_newlines False
                   (the (fst (snd (migrate_new_section ''ext'' (ex_fs, ex_parsed)))
                          ''target.gradle''))))) ''repositories'') = Some 6 \<and>
   fst (snd (run_migration id (ex_fs, ex_migrator))) ''target.gradle'' =
     Some (text_of
       [''plugins {'',
        ''// Section Added in migration from source project'',
        ''// Section updated in migration from source to target'',
        ''ext {'',
        ''    // Added as part of migration from source to target'',
        ''    mavenCentral()'',
        ''}'',
        '''',
        ''}'',
        ''repositories { }''])"
  apply (intro conjI)
  subgoal
    by (simp add: parse_gradle_files_def read_gradle_file_def ex_fs_def ex_parsed_def
          ex_migrator_paths Let_def)
  subgoal by code_simp
  subgoal by code_simp
  subgoal by code_simp
  done

text \<open>
  C9. When the last line of the target has no newline and the insertion falls at the end
  of the lines read, the text written joins that line with the first inserted line: the
  line read before the write is not a line of the file after it. The first example is the
  new-section step, the second the common-section step.
\<close>

theorem unterminated_last_line_is_edited:
  "read_gradle_file ex3_fs ''target.gradle'' = Inr [''version = 1''] \<and>
   read_gradle_file (fst (snd (migrate_new_section ''ext'' (ex3_fs, ex3_parsed))))
       ''target.gradle'' =
     Inr [''version = 1// Section Added in migration from source project'' @ [LF],
          ''ext {'' @ [LF], ''}'' @ [LF], [LF]] \<and>
   \<not> subseq [''version = 1'']
       [''version = 1// Section Added in migration from source project'' @ [LF],
          ''ext {'' @ [LF], ''}'' @ [LF], [LF]] \<and>
   read_gradle_file ex4_fs ''target.gradle'' = Inr [''// build'' @ [LF], ''dependencies { }''] \<and>
   read_gradle_file (fst (snd (migrate_existing_section ''dependencies'' (ex4_fs, ex4_parsed))))
       ''target.gradle'' =
     Inr [''// build'' @ [LF],
          ''// Section updated in migration from source to target'' @ [LF],
          ''dependencies { }    // Added as part of migration from source to target'' @ [LF],
          ''    implementation lib'' @ [LF]] \<and>
   \<not> subseq [''// build'' @ [LF], ''dependencies { }'']
         [''// build'' @ [LF],
          ''// Section updated in migration from source to target'' @ [LF],
          ''dependencies { }    // Added as part of migration from source to target'' @ [LF],
          ''    implementation lib'' @ [LF]]"
  apply (intro conjI)
  subgoal by code_simp
  subgoal by code_simp
  subgoal by simp
  subgoal by code_simp
  subgoal by code_simp
  subgoal by simp
  done

section \<open>The sections the scanner returns\<close>

lemma net_braces_simps [simp]:
  "net_braces [] = 0"
  "net_braces (l # ls) = brace_delta l + net_braces ls"
  "net_braces (ls @ ls') = net_braces ls + net_braces ls'"
  by (simp_all add: net_braces_def)

lemma take_drop_step:
  assumes "i < length lines" and "i < i'"
  shows "take (i' - i) (drop i lines) = lines ! i # take (i' - Suc i) (drop (Suc i) lines)"
proof -
  from assms(1) have "drop i lines = lines ! i # drop (Suc i) lines"
    by (simp add: Cons_nth_drop_Suc)
  moreover from assms(2) have "i' - i = Suc (i' - Suc i)" by simp
  ultimately show ?thesis by simp
qed

lemma find_section_end_result:
  assumes "find_section_end lines i bc body = (body', i', bc')" and "i \<le> length lines"
  shows "i \<le> i' \<and> i' \<le> length lines \<and>
         body' = body @ take (i' - i) (drop i lines) \<and>
         bc' = bc + net_braces (take (i' - i) (drop i lines)) \<and>
         (i' < length lines \<longrightarrow> bc' \<le> 0)"
  using assms
proof (induction lines i bc body rule: find_section_end.induct)
  case (1 lines i brace_count body)
  show ?case
  proof (cases "i < length lines \<and> brace_count > 0")
    case True
    with "1.prems"(1) have rec:
      "find_section_end lines (i + 1) (brace_count + brace_delta (lines ! i))
         (body @ [lines ! i]) = (body', i', bc')"
      by (simp add: find_section_end.simps [of lines i])
    from True have le: "i + 1 \<le> length lines" by simp
    from "1.IH" [OF True rec le] have
      ih: "i + 1 \<le> i'" "i' \<le> length lines"
        "body' = (body @ [lines ! i]) @ take (i' - (i + 1)) (drop (i + 1) lines)"
        "bc' = brace_count + brace_delta (lines ! i)
               + net_braces (take (i' - (i + 1)) (drop (i + 1) lines))"
        "i' < length lines \<longrightarrow> bc' \<le> 0"
      by blast+
    from True ih(1) have td:
      "take (i' - i) (drop i lines) = lines ! i # take (i' - Suc i) (drop (Suc i) lines)"
      by (intro take_drop_step) simp_all
    from ih td show ?thesis by auto
  next
    case False
    with "1.prems"(1) have "body' = body" "i' = i" "bc' = brace_count"
      by (simp_all add: find_section_end.simps [of lines i])
    with False "1.prems"(2) show ?thesis by auto
  qed
qed

lemma set_update_subset: "set (AList.update k v al) \<subseteq> insert (k, v) (set al)"
  by (induction al) auto

lemma scan_inv_mono: "scan_inv lines i secs \<Longrightarrow> i \<le> j \<Longrightarrow> scan_inv lines j secs"
  unfolding scan_inv_def by fastforce

lemma scan_inv_update:
  assumes inv: "scan_inv lines i secs"
      and new: "name s = k" "section_spans lines s" "start_line s = i" "end_line s < j"
               "block_open s \<longrightarrow> Suc (end_line s) = length lines"
      and ij: "i \<le> j"
  shows "scan_inv lines j (AList.update k s secs)"
proof -
  let ?secs' = "AList.update k s secs"
  have sub: "set ?secs' \<subseteq> insert (k, s) (set secs)" by (rule set_update_subset)
  from inv have d: "distinct (map fst ?secs')"
    unfolding scan_inv_def by (simp add: distinct_update)
  have each: "name t = q \<and> section_spans lines t \<and> end_line t < j \<and>
              (block_open t \<longrightarrow> Suc (end_line t) = length lines)"
    if "(q, t) \<in> set ?secs'" for q t
  proof (cases "(q, t) = (k, s)")
    case True
    with new show ?thesis by simp
  next
    case False
    with sub that have "(q, t) \<in> set secs" by blast
    with inv ij show ?thesis unfolding scan_inv_def by fastforce
  qed
  have old_before: "end_line t < i" if "(q, t) \<in> set secs" for q t
    using inv that unfolding scan_inv_def by fastforce
  have pair: "end_line t < start_line t' \<or> end_line t' < start_line t"
    if "(q, t) \<in> set ?secs'" "(q', t') \<in> set ?secs'" "q \<noteq> q'" for q t q' t'
  proof -
    from that(1) sub have a: "(q, t) = (k, s) \<or> (q, t) \<in> set secs" by auto
    from that(2) sub have b: "(q', t') = (k, s) \<or> (q', t') \<in> set secs" by auto
    show ?thesis
    proof (cases "(q, t) = (k, s)")
      case True
      with that(3) b have "(q', t') \<in> set secs" by auto
      from old_before [OF this] True new(3) show ?thesis by simp
    next
      case False
      with a have in1: "(q, t) \<in> set secs" by blast
      show ?thesis
      proof (cases "(q', t') = (k, s)")
        case True
        from old_before [OF in1] True new(3) show ?thesis by simp
      next
        case False
        with b have "(q', t') \<in> set secs" by blast
        with in1 that(3) inv show ?thesis unfolding scan_inv_def by fastforce
      qed
    qed
  qed
  from d each pair show ?thesis
    unfolding scan_inv_def by blast
qed

lemma identify_sections_step_inv:
  assumes inv: "scan_inv lines i secs" and i: "i < length lines"
      and step: "identify_sections_step lines (i, secs) = (i', secs')"
  shows "scan_inv lines i' secs' \<and> i' \<le> length lines"
proof -
  let ?line = "strip (lines ! i)"
  show ?thesis
  proof (cases "?line = [] \<or> startswith ?line ''//'' \<or> startswith ?line ''/*''")
    case True
    with step have "i' = i + 1" "secs' = secs"
      by (simp_all add: identify_sections_step_def Let_def)
    with inv i show ?thesis by (auto intro: scan_inv_mono)
  next
    case False
    note skip = False
    show ?thesis
    proof (cases "section_match ?line")
      case None
      with skip step have "i' = i + 1" "secs' = secs"
        by (simp_all add: identify_sections_step_def Let_def)
      with inv i show ?thesis by (auto intro: scan_inv_mono)
    next
      case (Some sname)
      obtain body j bc where fe: "find_section_end lines (i + 1) 1 [lines ! i] = (body, j, bc)"
        by (cases "find_section_end lines (i + 1) 1 [lines ! i]") auto
      let ?s = "\<lparr>name = sname, content = body, start_line = i, end_line = j - 1,
                 section_type = determine_section_type sname, indentation = ''''\<rparr>"
      from skip Some fe step have res: "i' = j" "secs' = AList.update sname ?s secs"
        by (auto simp: identify_sections_step_def Let_def)
      from i have "i + 1 \<le> length lines" by simp
      from find_section_end_result [OF fe this] have
        r: "i + 1 \<le> j" "j \<le> length lines"
          "body = [lines ! i] @ take (j - (i + 1)) (drop (i + 1) lines)"
          "bc = 1 + net_braces (take (j - (i + 1)) (drop (i + 1) lines))"
          "j < length lines \<longrightarrow> bc \<le> 0"
        by blast+
      from i r(1) have td:
        "take (j - i) (drop i lines) = lines ! i # take (j - Suc i) (drop (Suc i) lines)"
        by (intro take_drop_step) simp_all
      from r(1,2) have sj: "Suc (j - 1) = j" by simp
      from r(1,2) have b1: "i \<le> j - 1" and b2: "j - 1 < length lines" by arith+
      have spans: "section_spans lines ?s"
        unfolding section_spans_def using b1 b2 r(3) td sj by simp
      have opn: "block_open ?s \<longrightarrow> Suc (end_line ?s) = length lines"
        unfolding block_open_def using r sj by auto
      from r(1) have b3: "end_line ?s < j" and b4: "i \<le> j" by simp_all
      have "scan_inv lines j (AList.update sname ?s secs)"
        by (rule scan_inv_update [OF inv _ spans _ b3 opn b4]) simp_all
      with res r(2) show ?thesis by simp
    qed
  qed
qed

lemma identify_sections_from_inv:
  "scan_inv lines i secs \<Longrightarrow> i \<le> length lines \<Longrightarrow>
   scan_inv lines (length lines) (identify_sections_from lines i secs)"
proof (induction lines i secs rule: identify_sections_from.induct)
  case (1 lines i sections)
  show ?case
  proof (cases "i < length lines")
    case True
    obtain i' sections' where st: "identify_sections_step lines (i, sections) = (i', sections')"
      by (cases "identify_sections_step lines (i, sections)") auto
    from identify_sections_step_inv [OF "1.prems"(1) True st]
    have "scan_inv lines i' sections'" "i' \<le> length lines" by simp_all
    from "1.IH" [OF True st [symmetric] this] st True show ?thesis
      by (simp add: identify_sections_from.simps [of lines i])
  next
    case False
    with "1.prems" have "i = length lines" by simp
    with "1.prems" show ?thesis
      by (simp add: identify_sections_from.simps [of lines "length lines"])
  qed
qed

lemma identify_sections_inv: "scan_inv lines (length lines) (identify_sections lines)"
  unfolding identify_sections_def
  by (rule identify_sections_from_inv) (simp_all add: scan_inv_def)




lemma same_key_same_value:
  "distinct (map fst xs) \<Longrightarrow> (k, a) \<in> set xs \<Longrightarrow> (k, b) \<in> set xs \<Longrightarrow> a = b"
  by (induction xs) (auto simp: image_iff)

lemma section_spans_content:
  assumes "section_spans lines s"
  shows "content s = lines ! start_line s # tl (content s)"
proof -
  from assms have a: "start_line s < length lines" and b: "start_line s < Suc (end_line s)"
    and c: "content s = take (Suc (end_line s) - start_line s) (drop (start_line s) lines)"
    unfolding section_spans_def by simp_all
  from take_drop_step [OF a b] c show ?thesis by simp
qed

lemma distinct_count_list_le_1: "distinct xs \<Longrightarrow> count_list xs x \<le> 1"
  by (induction xs) (auto simp: count_list_0_iff)

lemma validate_reports_no_duplicates:
  assumes "read_gradle_file fs (build_target_gradle_path self) = Inr ls"
      and "count_braces (concat ls) 0 = Some 0"
  shows "validate_gradle_structure set_iter (fs, self) = (True, (fs, self))"
proof -
  let ?secs = "identify_sections ls"
  let ?names = "map (\<lambda>(k, section). name section) ?secs"
  have inv: "scan_inv ls (length ls) ?secs" by (rule identify_sections_inv)
  then have eq: "?names = map fst ?secs"
    unfolding scan_inv_def by (intro map_cong) auto
  from inv have "distinct (map fst ?secs)" unfolding scan_inv_def by simp
  then have d: "distinct ?names" by (simp only: eq)
  have "count_list ?names n \<le> 1" for n
    using d by (rule distinct_count_list_le_1)
  then have "[n \<leftarrow> set_iter (remdups ?names). count_list ?names n > 1] = []"
    by (auto simp: filter_empty_conv not_less)
  with assms show ?thesis
    by (simp add: validate_gradle_structure_def Let_def)
qed

text \<open>
  C7, as amended. For every list of lines, a section of the mapping is stored under its
  name, its content is exactly the lines from its start line to its end line, and two
  distinct sections of the mapping do not overlap. When the block of a section reaches its
  matching close, the net brace count of the content is that of the opening line less one:
  zero when the opening line has one opening brace more than closing braces.
\<close>

theorem scanner_sections_span_and_do_not_overlap:
  assumes "(k, s) \<in> set (identify_sections lines)"
  shows "name s = k \<and>
         start_line s \<le> end_line s \<and> end_line s < length lines \<and>
         content s = take (Suc (end_line s) - start_line s) (drop (start_line s) lines) \<and>
         (block_closed s \<longrightarrow> net_braces (content s) = brace_delta (lines ! start_line s) - 1) \<and>
         (\<forall>(k', s') \<in> set (identify_sections lines).
            (k', s') \<noteq> (k, s) \<longrightarrow> end_line s < start_line s' \<or> end_line s' < start_line s)"
proof -
  let ?secs = "identify_sections lines"
  have inv: "scan_inv lines (length lines) ?secs" by (rule identify_sections_inv)
  from inv assms have nm: "name s = k" and sp: "section_spans lines s"
    unfolding scan_inv_def by fastforce+
  from inv have d: "distinct (map fst ?secs)" unfolding scan_inv_def by simp
  have net: "net_braces (content s) = brace_delta (lines ! start_line s) - 1" if "block_closed s"
  proof -
    have "net_braces (content s) = net_braces (lines ! start_line s # tl (content s))"
      using section_spans_content [OF sp] by simp
    with that show ?thesis unfolding block_closed_def by simp
  qed
  have dis: "end_line s < start_line s' \<or> end_line s' < start_line s"
    if "(k', s') \<in> set ?secs" "(k', s') \<noteq> (k, s)" for k' s'
  proof -
    from same_key_same_value [OF d that(1)] assms that(2) have "k' \<noteq> k" by auto
    with inv assms that(1) show ?thesis unfolding scan_inv_def by fastforce
  qed
  from nm sp net dis show ?thesis
    unfolding section_spans_def by blast
qed

theorem scanner_sections_span_and_do_not_overlap_witness:
  "identify_sections ex_source_lines =
     [(''repositories'', ex_sec_repositories), (''ext'', ex_sec_ext)] \<and>
   block_closed ex_sec_ext \<and>
   net_braces (content ex_sec_ext) = 0 \<and>
   content ex_sec_ext = take (Suc (end_line ex_sec_ext) - start_line ex_sec_ext)
                             (drop (start_line ex_sec_ext) ex_source_lines) \<and>
   end_line ex_sec_repositories < start_line ex_sec_ext"
proof -
  have secs: "identify_sections ex_source_lines =
      [(''repositories'', ex_sec_repositories), (''ext'', ex_sec_ext)]"
    by code_simp
  have closed: "block_closed ex_sec_ext" by code_simp
  have first_line: "brace_delta (ex_source_lines ! start_line ex_sec_ext) - 1 = 0" by code_simp
  have apart: "(''repositories'', ex_sec_repositories) \<noteq> (''ext'', ex_sec_ext)" by simp
  have order: "\<not> end_line ex_sec_ext < start_line ex_sec_repositories"
    by (simp add: ex_sec_ext_def ex_sec_repositories_def)
  have mx: "(''ext'', ex_sec_ext) \<in> set (identify_sections ex_source_lines)"
    and mr: "(''repositories'', ex_sec_repositories) \<in> set (identify_sections ex_source_lines)"
    unfolding secs by simp_all
  from scanner_sections_span_and_do_not_overlap [OF mx] closed first_line mr apart order secs
  show ?thesis by fastforce
qed

text \<open>
  C7 as stated fails. The lines \<open>a { b {\<close>, \<open>}\<close>, \<open>}\<close> are balanced as a whole, and the one
  block the scanner captures reaches a matching close before the end of the input (its
  counter is 0 after the second line); the net brace count of its content is 1.
\<close>

theorem nested_opening_line_unbalanced_content:
  "count_braces (concat ex_nested_lines) 0 = Some 0 \<and>
   identify_sections ex_nested_lines = [(''a'', ex_sec_nested)] \<and>
   block_closed ex_sec_nested \<and>
   Suc (end_line ex_sec_nested) < length ex_nested_lines \<and>
   net_braces (content ex_sec_nested) = 1"
  by code_simp














section \<open>The order of the merge steps\<close>

lemma migrate_new_section_ok:
  assumes "map_of (source_sections self) n = Some s"
      and "fs (build_target_gradle_path self) \<noteq> None"
  shows "\<exists>w. migrate_new_section n (fs, self) =
           (None, (fs(build_target_gradle_path self \<mapsto> w),
                   self\<lparr>migration_changes := migration_changes self @ [add_change n s]\<rparr>))"
  using assms
  by (auto simp: migrate_new_section_def read_gradle_file_def Let_def)

lemma migrate_existing_section_ok:
  assumes "map_of (source_sections self) n = Some s"
      and "map_of (target_sections self) n = Some t"
      and "fs (build_target_gradle_path self) \<noteq> None"
  shows "\<exists>fs'. migrate_existing_section n (fs, self) =
           (None, (fs', self\<lparr>migration_changes := migration_changes self @ update_changes self n\<rparr>))
         \<and> fs' (build_target_gradle_path self) \<noteq> None"
  using assms
  by (auto simp: migrate_existing_section_def read_gradle_file_def Let_def update_changes_def)

lemma for_each_new:
  assumes "set ns \<subseteq> dom (map_of (source_sections self))"
      and "fs (build_target_gradle_path self) \<noteq> None"
  shows "\<exists>fs'. for_each migrate_new_section ns (fs, self) =
           (None, (fs', self\<lparr>migration_changes :=
                              migration_changes self
                              @ map (\<lambda>n. add_change n (the (map_of (source_sections self) n))) ns\<rparr>))
         \<and> fs' (build_target_gradle_path self) \<noteq> None"
  using assms
proof (induction ns arbitrary: fs self)
  case Nil
  then show ?case by simp
next
  case (Cons n ns)
  from Cons.prems(1) obtain s where s: "map_of (source_sections self) n = Some s" by auto
  let ?self1 = "self\<lparr>migration_changes := migration_changes self @ [add_change n s]\<rparr>"
  from migrate_new_section_ok [of self n s fs, OF s Cons.prems(2)] obtain w where
    step: "migrate_new_section n (fs, self) =
             (None, (fs(build_target_gradle_path self \<mapsto> w), ?self1))"
    by blast
  have "set ns \<subseteq> dom (map_of (source_sections ?self1))"
    using Cons.prems(1) by simp
  moreover have "(fs(build_target_gradle_path self \<mapsto> w)) (build_target_gradle_path ?self1) \<noteq> None"
    by simp
  ultimately obtain fs' where
    rest: "for_each migrate_new_section ns (fs(build_target_gradle_path self \<mapsto> w), ?self1) =
             (None, (fs', ?self1\<lparr>migration_changes :=
                              migration_changes ?self1
                              @ map (\<lambda>n. add_change n (the (map_of (source_sections ?self1) n))) ns\<rparr>))"
    and ex: "fs' (build_target_gradle_path ?self1) \<noteq> None"
    using Cons.IH by blast
  from step rest ex s show ?case by simp
qed

lemma update_changes_cong:
  "source_sections self' = source_sections self \<Longrightarrow>
   target_sections self' = target_sections self \<Longrightarrow>
   update_changes self' = update_changes self"
  by (rule ext) (simp add: update_changes_def)

lemma for_each_existing:
  assumes "set ns \<subseteq> dom (map_of (source_sections self))"
      and "set ns \<subseteq> dom (map_of (target_sections self))"
      and "fs (build_target_gradle_path self) \<noteq> None"
  shows "\<exists>fs'. for_each migrate_existing_section ns (fs, self) =
           (None, (fs', self\<lparr>migration_changes :=
                              migration_changes self @ concat (map (update_changes self) ns)\<rparr>))
         \<and> fs' (build_target_gradle_path self) \<noteq> None"
  using assms
proof (induction ns arbitrary: fs self)
  case Nil
  then show ?case by simp
next
  case (Cons n ns)
  from Cons.prems(1) obtain s where s: "map_of (source_sections self) n = Some s" by auto
  from Cons.prems(2) obtain t where t: "map_of (target_sections self) n = Some t" by auto
  let ?self1 = "self\<lparr>migration_changes := migration_changes self @ update_changes self n\<rparr>"
  from migrate_existing_section_ok [of self n s t fs, OF s t Cons.prems(3)] obtain fs1 where
    step: "migrate_existing_section n (fs, self) = (None, (fs1, ?self1))"
    and ex1: "fs1 (build_target_gradle_path self) \<noteq> None"
    by blast
  have uc: "update_changes ?self1 = update_changes self"
    by (rule update_changes_cong) simp_all
  have "set ns \<subseteq> dom (map_of (source_sections ?self1))"
    and "set ns \<subseteq> dom (map_of (target_sections ?self1))"
    and "fs1 (build_target_gradle_path ?self1) \<noteq> None"
    using Cons.prems(1,2) ex1 by simp_all
  from Cons.IH [of ?self1 fs1, OF this] obtain fs' where
    rest: "for_each migrate_existing_section ns (fs1, ?self1) =
             (None, (fs', ?self1\<lparr>migration_changes :=
                              migration_changes ?self1 @ concat (map (update_changes ?self1) ns)\<rparr>))"
    and ex: "fs' (build_target_gradle_path ?self1) \<noteq> None"
    by blast
  from step rest ex show ?case by (simp add: uc)
qed

lemma set_keys: "set (keys d) = dom (map_of d)"
  by (simp add: keys_def dom_map_of_conv_image_fst)

lemma distinct_keys: "distinct (keys d)"
  by (simp add: keys_def)

lemma set_order_rev: "set_order rev"
  by (simp add: set_order_def)

text \<open>
  C2, as amended. The names of the source-only sections and of the common sections are
  visited in the order the two Python sets yield them, which need not be the order of the
  source mapping. For any such order, when the target file exists \<open>migrate_sections\<close>
  returns normally and the change log is the log before, then one Add record for each
  source-only section in the order of the first set, then one Update record for each
  common section with new content in the order of the second set. What a record holds
  depends on the two mappings alone.
\<close>

theorem change_log_follows_set_order:
  assumes ord: "set_order set_iter"
      and tgt: "fs (build_target_gradle_path self) \<noteq> None"
  shows "\<exists>fs'. migrate_sections set_iter (fs, self) =
           (None,
            (fs',
             self\<lparr>migration_changes :=
                    migration_changes self
                    @ map (\<lambda>n. add_change n (the (map_of (source_sections self) n)))
                        (set_iter [k \<leftarrow> keys (source_sections self).
                                     k \<notin> set (keys (target_sections self))])
                    @ concat (map (update_changes self)
                        (set_iter [k \<leftarrow> keys (source_sections self).
                                     k \<in> set (keys (target_sections self))]))\<rparr>))"
proof -
  let ?new = "[k \<leftarrow> keys (source_sections self). k \<notin> set (keys (target_sections self))]"
  let ?common = "[k \<leftarrow> keys (source_sections self). k \<in> set (keys (target_sections self))]"
  let ?adds = "map (\<lambda>n. add_change n (the (map_of (source_sections self) n))) (set_iter ?new)"
  let ?self1 = "self\<lparr>migration_changes := migration_changes self @ ?adds\<rparr>"
  from ord have sn: "set (set_iter ?new) = set ?new" and sc: "set (set_iter ?common) = set ?common"
    unfolding set_order_def by (simp_all add: distinct_keys)
  from sn have "set (set_iter ?new) \<subseteq> dom (map_of (source_sections self))"
    by (auto simp: set_keys)
  from for_each_new [of "set_iter ?new" self fs, OF this tgt] obtain fs1 where
    new: "for_each migrate_new_section (set_iter ?new) (fs, self) = (None, (fs1, ?self1))"
    and ex1: "fs1 (build_target_gradle_path self) \<noteq> None"
    by blast
  from sc have "set (set_iter ?common) \<subseteq> dom (map_of (source_sections ?self1))"
    and "set (set_iter ?common) \<subseteq> dom (map_of (target_sections ?self1))"
    by (auto simp: set_keys)
  moreover from ex1 have "fs1 (build_target_gradle_path ?self1) \<noteq> None" by simp
  ultimately obtain fs2 where
    common: "for_each migrate_existing_section (set_iter ?common) (fs1, ?self1) =
       (None, (fs2, ?self1\<lparr>migration_changes :=
                  migration_changes ?self1 @ concat (map (update_changes ?self1) (set_iter ?common))\<rparr>))"
    using for_each_existing by blast
  have uc: "update_changes ?self1 = update_changes self"
    by (rule update_changes_cong) simp_all
  from new common show ?thesis
    by (intro exI [of _ fs2]) (simp add: migrate_sections_def Let_def uc)
qed

theorem change_log_follows_set_order_witness:
  "map section_name
     (migration_changes (snd (snd (migrate_sections rev (ex5_fs, ex5_parsed)))))
   = [''ext'', ''repositories'']"
proof -
  have tgt: "ex5_fs (build_target_gradle_path ex5_parsed) \<noteq> None"
    by (simp add: ex5_parsed_def ex_migrator_paths ex5_fs_def)
  have log: "map section_name
      (migration_changes ex5_parsed
       @ map (\<lambda>n. add_change n (the (map_of (source_sections ex5_parsed) n)))
           (rev [k \<leftarrow> keys (source_sections ex5_parsed).
                   k \<notin> set (keys (target_sections ex5_parsed))])
       @ concat (map (update_changes ex5_parsed)
           (rev [k \<leftarrow> keys (source_sections ex5_parsed).
                   k \<in> set (keys (target_sections ex5_parsed))])))
     = [''ext'', ''repositories'']"
    by code_simp
  from change_log_follows_set_order [OF set_order_rev, of ex5_fs ex5_parsed, OF tgt] log
  show ?thesis by auto
qed

text \<open>
  C2 as stated fails. Reversal is an order in which sets may yield their elements, as the
  order of the source mapping is. On a source with two sections the target lacks, the two
  orders give change logs in opposite orders and different target files.
\<close>

theorem set_order_changes_log_and_file:
  "set_order rev \<and> set_order id \<and>
   map section_name (migration_changes (snd (snd (run_migration id (ex5_fs, ex_migrator)))))
     = [''repositories'', ''ext''] \<and>
   map section_name (migration_changes (snd (snd (run_migration rev (ex5_fs, ex_migrator)))))
     = [''ext'', ''repositories''] \<and>
   fst (snd (run_migration id (ex5_fs, ex_migrator))) ''target.gradle''
     \<noteq> fst (snd (run_migration rev (ex5_fs, ex_migrator))) ''target.gradle''"
  apply (intro conjI)
  subgoal by (simp add: set_order_def)
  subgoal by (simp add: set_order_def)
  subgoal by code_simp
  subgoal by code_simp
  subgoal by code_simp
  done

section \<open>Writes that only insert\<close>

text \<open>
  Both merge steps insert into the list of lines they read and write the list back. When
  every line read ends with a newline, the lines read after the write have the lines read
  before it as a subsequence. The last two lemmas say so for the two steps; the example of
  C9 shows what happens when the last line has no newline.
\<close>

lemma subseq_insert_at: "subseq xs (insert_at p ys xs)"
proof -
  have "subseq (take p xs @ drop p xs) (take p xs @ ys @ drop p xs)"
    by (intro list_emb_append_mono subseq_order.order_refl list_emb_append2)
  then show ?thesis by (simp add: insert_at_def)
qed

text \<open>Reading back what was written: a text whose pieces each end with a newline is
  read piece by piece.\<close>

lemma universal_newlines_append:
  "universal_newlines b (xs @ ys) =
     universal_newlines b xs @ universal_newlines (if xs = [] then b else last xs = CR) ys"
  by (induction xs arbitrary: b) auto

lemma universal_newlines_no_cr: "CR \<notin> set xs \<Longrightarrow> universal_newlines False xs = xs"
  by (induction xs) auto

lemma universal_newlines_free_of_cr: "CR \<notin> set (universal_newlines b xs)"
  by (induction xs arbitrary: b) auto

lemma universal_newlines_last_cr:
  "xs \<noteq> [] \<Longrightarrow> last xs = CR \<Longrightarrow>
   universal_newlines b xs \<noteq> [] \<and> last (universal_newlines b xs) = LF"
proof (induction xs arbitrary: b)
  case Nil
  then show ?case by simp
next
  case (Cons x xs)
  then show ?case by (cases "xs = []") auto
qed

lemma universal_newlines_ends_lf:
  assumes "xs \<noteq> []" and "last xs = LF"
  shows "universal_newlines False xs \<noteq> [] \<and> last (universal_newlines False xs) = LF"
proof -
  from assms obtain ys where xs: "xs = ys @ [LF]"
    by (metis append_butlast_last_id)
  show ?thesis
  proof (cases "ys \<noteq> [] \<and> last ys = CR")
    case True
    with universal_newlines_last_cr [of ys False] show ?thesis
      by (simp add: xs universal_newlines_append)
  next
    case False
    then show ?thesis
      by (auto simp: xs universal_newlines_append)
  qed
qed

lemma readlines_append:
  "xs = [] \<or> last xs = LF \<Longrightarrow> readlines (xs @ ys) = readlines xs @ readlines ys"
proof (induction xs)
  case Nil
  then show ?case by simp
next
  case (Cons x xs)
  show ?case
  proof (cases "xs = []")
    case True
    with Cons.prems show ?thesis by simp
  next
    case False
    with Cons.prems have "last xs = LF" by simp
    with Cons.IH have ih: "readlines (xs @ ys) = readlines xs @ readlines ys" by simp
    from False have "readlines xs \<noteq> []" by (cases xs) (auto split: list.splits)
    with ih show ?thesis by (auto split: list.splits)
  qed
qed

lemma reread_concat:
  assumes "\<forall>l \<in> set L. l \<noteq> [] \<and> last l = LF"
  shows "readlines (universal_newlines False (concat L)) =
           concat (map (\<lambda>l. readlines (universal_newlines False l)) L)"
  using assms
proof (induction L)
  case Nil
  then show ?case by simp
next
  case (Cons l L)
  then have l: "l \<noteq> []" "last l = LF" by simp_all
  from l have "universal_newlines False (l @ concat L) =
      universal_newlines False l @ universal_newlines False (concat L)"
    by (simp add: universal_newlines_append)
  moreover from universal_newlines_ends_lf [OF l]
  have "readlines (universal_newlines False l @ universal_newlines False (concat L)) =
      readlines (universal_newlines False l) @ readlines (universal_newlines False (concat L))"
    by (intro readlines_append) simp
  ultimately show ?case using Cons by simp
qed

lemma readlines_one_line: "LF \<notin> set body \<Longrightarrow> readlines (body @ [LF]) = [body @ [LF]]"
  by (induction body) auto

lemma readlines_line_shape:
  "l \<in> set (readlines s) \<Longrightarrow> l \<noteq> [] \<and> LF \<notin> set (butlast l) \<and> set l \<subseteq> set s"
proof (induction s arbitrary: l)
  case Nil
  then show ?case by simp
next
  case (Cons c cs)
  show ?case
  proof (cases "c = LF")
    case True
    with Cons show ?thesis by fastforce
  next
    case False
    note nlf = False
    show ?thesis
    proof (cases "readlines cs")
      case Nil
      with nlf Cons.prems show ?thesis by simp
    next
      case (Cons m ms)
      with nlf Cons.prems have "l = c # m \<or> l \<in> set ms" by simp
      then show ?thesis
      proof
        assume l: "l = c # m"
        from Cons have "m \<in> set (readlines cs)" by simp
        from Cons.IH [OF this] nlf l show ?thesis by auto
      next
        assume "l \<in> set ms"
        with Cons have "l \<in> set (readlines cs)" by simp
        from Cons.IH [OF this] show ?thesis by auto
      qed
    qed
  qed
qed

lemma reread_line:
  assumes "l \<in> set (readlines (universal_newlines False s))" and "last l = LF"
  shows "readlines (universal_newlines False l) = [l]"
proof -
  from readlines_line_shape [OF assms(1)] have ne: "l \<noteq> []" and
    inner: "LF \<notin> set (butlast l)" and sub: "set l \<subseteq> set (universal_newlines False s)"
    by simp_all
  from sub universal_newlines_free_of_cr have "CR \<notin> set l" by blast
  then have "universal_newlines False l = l" by (rule universal_newlines_no_cr)
  moreover from ne assms(2) have "l = butlast l @ [LF]" by (metis append_butlast_last_id)
  ultimately show ?thesis using readlines_one_line [OF inner] by simp
qed

lemma subseq_concat_map:
  "subseq xs ys \<Longrightarrow> \<forall>x \<in> set xs. f x = [x] \<Longrightarrow> subseq xs (concat (map f ys))"
proof (induction rule: list_emb.induct)
  case (list_emb_Nil ys)
  then show ?case by simp
next
  case (list_emb_Cons xs ys y)
  then show ?case by (simp add: list_emb_append2)
next
  case (list_emb_Cons2 x y xs ys)
  then have "subseq xs (concat (map f ys))" and "f y = [x]" by simp_all
  then show ?case by simp
qed


lemma reread_inserted:
  assumes ls: "ls = readlines (universal_newlines False s)"
      and ended: "\<forall>l \<in> set ls. last l = LF"
      and sub: "subseq ls L"
      and L: "\<forall>l \<in> set L. l \<noteq> [] \<and> last l = LF"
  shows "subseq ls (readlines (universal_newlines False (concat L)))"
proof -
  have "\<forall>l \<in> set ls. readlines (universal_newlines False l) = [l]"
    using ls ended reread_line by blast
  with sub have "subseq ls (concat (map (\<lambda>l. readlines (universal_newlines False l)) L))"
    by (rule subseq_concat_map)
  with reread_concat [OF L] show ?thesis by simp
qed

lemma set_insert_at: "set (insert_at p ys xs) = set xs \<union> set ys"
proof -
  have "set (take p xs) \<union> set (drop p xs) = set xs"
    by (metis append_take_drop_id set_append)
  then show ?thesis by (auto simp: insert_at_def)
qed

lemma concat_insert_at: "concat (insert_at p ys xs) = concat (insert_at p [concat ys] xs)"
  by (simp add: insert_at_def)

lemma new_section_keeps_terminated_lines:
  assumes rd: "read_gradle_file fs (build_target_gradle_path self) = Inr target_lines"
      and ended: "\<forall>l \<in> set target_lines. last l = LF"
      and step: "migrate_new_section sname (fs, self) = (None, (fs', self'))"
  shows "\<exists>after. read_gradle_file fs' (build_target_gradle_path self) = Inr after \<and>
           subseq target_lines after"
proof (cases "map_of (source_sections self) sname")
  case None
  with step show ?thesis by (simp add: migrate_new_section_def)
next
  case (Some source_section)
  define p where "p = find_last_close target_lines (length target_lines) (length target_lines)"
  define X where "X = [''// Section Added in migration from source project'' @ [LF]]
            @ content source_section @ [[LF]]"
  let ?L = "insert_at p [concat X] target_lines"
  from rd obtain s where s: "fs (build_target_gradle_path self) = Some s"
    and ls: "target_lines = readlines (universal_newlines False s)"
    by (auto simp: read_gradle_file_def split: option.splits)
  from step rd Some have
    fs': "fs' = fs(build_target_gradle_path self \<mapsto> writelines (insert_at p X target_lines))"
    by (simp add: migrate_new_section_def Let_def p_def X_def)
  have X: "concat X \<noteq> []" "last (concat X) = LF"
    by (simp_all add: X_def)
  have ne: "l \<noteq> []" if "l \<in> set target_lines" for l
    using that ls readlines_line_shape by blast
  have L: "\<forall>l \<in> set ?L. l \<noteq> [] \<and> last l = LF"
    using ended ne X by (auto simp: set_insert_at)
  from reread_inserted [OF ls ended subseq_insert_at L]
  have "subseq target_lines (readlines (universal_newlines False (concat ?L)))" .
  then show ?thesis
    by (simp add: fs' read_gradle_file_def writelines_def concat_insert_at [of p X])
qed

lemma new_content_lines_of_terminated:
  "\<forall>l \<in> set (new_content_lines_of new_content). l \<noteq> [] \<and> last l = LF"
  by (auto simp: new_content_lines_of_def)

lemma existing_section_keeps_terminated_lines:
  assumes rd: "read_gradle_file fs (build_target_gradle_path self) = Inr target_lines"
      and ended: "\<forall>l \<in> set target_lines. last l = LF"
      and step: "migrate_existing_section sname (fs, self) = (None, (fs', self'))"
  shows "\<exists>after. read_gradle_file fs' (build_target_gradle_path self) = Inr after \<and>
           subseq target_lines after"
proof -
  from step obtain source_section target_section where
    src: "map_of (source_sections self) sname = Some source_section"
    and tgt: "map_of (target_sections self) sname = Some target_section"
    by (auto simp: migrate_existing_section_def split: option.splits)
  let ?new = "new_content_of source_section target_section"
  show ?thesis
  proof (cases "?new = []")
    case True
    with step rd src tgt have "fs' = fs"
      by (simp add: migrate_existing_section_def)
    with rd show ?thesis by auto
  next
    case False
    define marker where
      "marker = ''// Section updated in migration from source to target'' @ [LF]"
    let ?p = "start_line target_section"
    let ?L1 = "insert_at ?p [marker] target_lines"
    let ?q = "find_open_brace ?L1 ?p (?p + 1)"
    let ?L = "insert_at ?q (new_content_lines_of ?new) ?L1"
    from rd obtain s where s: "fs (build_target_gradle_path self) = Some s"
      and ls: "target_lines = readlines (universal_newlines False s)"
      by (auto simp: read_gradle_file_def split: option.splits)
    from step rd src tgt False have
      fs': "fs' = fs(build_target_gradle_path self \<mapsto> writelines ?L)"
      by (simp add: migrate_existing_section_def Let_def marker_def)
    have marker: "marker \<noteq> []" "last marker = LF"
      by (simp_all add: marker_def)
    have ne: "l \<noteq> []" if "l \<in> set target_lines" for l
      using that ls readlines_line_shape by blast
    have L: "\<forall>l \<in> set ?L. l \<noteq> [] \<and> last l = LF"
      using ended ne marker new_content_lines_of_terminated by (auto simp: set_insert_at)
    have sub: "subseq target_lines ?L"
      using subseq_insert_at subseq_order.order_trans by blast
    from reread_inserted [OF ls ended sub L]
    show ?thesis
      by (simp add: fs' read_gradle_file_def writelines_def)
  qed
qed

end
